theory Spec2Isabelle
  imports Main "HOL-Library.Multiset" "HOL-Library.AList"
begin

section \<open>Corellian Spike Sabacc: the model of \<^verbatim>\<open>corellian_spike.py\<close>\<close>

text \<open>
  Cards are Python integers, a hand and the deck are Python lists of integers. Exceptions
  are values of the type \<open>error\<close>; a function that can raise returns \<open>error + 'a\<close>.
  In the definitions \<open>hand\<close> stands for the list \<^verbatim>\<open>self.cards\<close> and \<open>dk\<close> for the deck.
\<close>

datatype error = ValueError | IndexError | ZeroDivisionError

subsection \<open>The random source\<close>

text \<open>
  \<^verbatim>\<open>random.shuffle(x)\<close> of the Python library walks \<open>i\<close> from \<open>len(x) - 1\<close> down to
  \<open>1\<close>, picks \<open>j = randbelow(i + 1)\<close> and exchanges \<open>x[i]\<close> and \<open>x[j]\<close>. The random
  source is the parameter \<open>rnd\<close>: \<open>rnd i\<close> is the number drawn at index \<open>i\<close>, reduced
  below \<open>i + 1\<close>.
\<close>

fun shuffle_loop :: "(nat \<Rightarrow> nat) \<Rightarrow> nat \<Rightarrow> 'a list \<Rightarrow> 'a list" where
  "shuffle_loop rnd 0 xs = xs"
| "shuffle_loop rnd (Suc i) xs =
     (let j = rnd (Suc i) mod (Suc (Suc i))
      in shuffle_loop rnd i (xs[Suc i := xs ! j, j := xs ! Suc i]))"

definition shuffle :: "(nat \<Rightarrow> nat) \<Rightarrow> 'a list \<Rightarrow> 'a list" where
  "shuffle rnd xs = shuffle_loop rnd (length xs - 1) xs"

subsection \<open>Class \<^verbatim>\<open>Player\<close>\<close>

text \<open>
  A player is a Discord user (known by its id) with a hand; the showdown of a solo game
  adds a player whose user is an instance of the class \<^verbatim>\<open>AIUser\<close>.
\<close>

datatype user = Human nat | AIUser

record player =
  user :: user
  cards :: "int list"

definition Player :: "user \<Rightarrow> player" where
  "Player u = \<lparr>user = u, cards = []\<rparr>"

text \<open>
  \<^verbatim>\<open>draw_card\<close> raises before it changes anything when the deck is empty; otherwise it
  pops the last card of the deck and appends it to the hand. The deck is passed in and
  returned with the player.
\<close>

definition draw_card :: "player \<Rightarrow> int list \<Rightarrow> error + (player \<times> int list)" where
  "draw_card p dk =
     (if dk = [] then Inl ValueError
      else Inr (p\<lparr>cards := cards p @ [last dk]\<rparr>, butlast dk))"

text \<open>\<^verbatim>\<open>list.remove\<close> deletes the first occurrence: \<open>remove1\<close>.\<close>

definition discard_card :: "int \<Rightarrow> player \<Rightarrow> bool \<times> player" where
  "discard_card c p =
     (if length (cards p) \<le> 1 then (False, p)
      else if c \<in> set (cards p) then (True, p\<lparr>cards := remove1 c (cards p)\<rparr>)
      else (False, p))"

definition replace_card :: "int \<Rightarrow> player \<Rightarrow> int list \<Rightarrow> error + (bool \<times> player \<times> int list)" where
  "replace_card c p dk =
     (if c \<in> set (cards p) \<and> dk \<noteq> [] then
        (case draw_card (p\<lparr>cards := remove1 c (cards p)\<rparr>) dk of
           Inl e \<Rightarrow> Inl e
         | Inr (p', dk') \<Rightarrow> Inr (True, p', dk'))
      else Inr (False, p, dk))"

definition get_total :: "player \<Rightarrow> int" where
  "get_total p = sum_list (cards p)"

subsection \<open>The deck\<close>

definition unshuffled_deck :: "int list" where
  "unshuffled_deck =
     concat (map (\<lambda>i. replicate 3 i) [1..10])
     @ concat (map (\<lambda>i. replicate 3 (- i)) [1..10])
     @ [0, 0]"

definition generate_deck :: "(nat \<Rightarrow> nat) \<Rightarrow> int list" where
  "generate_deck rnd = shuffle rnd unshuffled_deck"

text \<open>
  A sequence of draws: \<open>ns\<close> lists, in order, the index of the player who draws. The
  first failing draw ends the sequence with its error.
\<close>

fun draws :: "nat list \<Rightarrow> player list \<Rightarrow> int list \<Rightarrow> error + (player list \<times> int list)" where
  "draws [] ps dk = Inr (ps, dk)"
| "draws (n # ns) ps dk =
     (case draw_card (ps ! n) dk of
        Inl e \<Rightarrow> Inl e
      | Inr (p', dk') \<Rightarrow> draws ns (ps[n := p']) dk')"

text \<open>The cards held by the players, as a multiset.\<close>

definition hands_mset :: "player list \<Rightarrow> int multiset" where
  "hands_mset ps = sum_list (map (\<lambda>p. mset (cards p)) ps)"

subsection \<open>\<^verbatim>\<open>evaluate_hand\<close>\<close>

text \<open>
  A component of the comparison key is a Python integer or \<^verbatim>\<open>float('-inf')\<close>. The key
  \<^verbatim>\<open>(hand_rank, *tie_breakers)\<close> is the list of its components, the rank first.
\<close>

datatype tb_value = NegInf | Fin int

text \<open>
  Python compares tuples at the first position where they differ, and a proper prefix is
  smaller; \<^verbatim>\<open>float('-inf')\<close> is below every integer and equal to itself.
\<close>

fun tb_less :: "tb_value \<Rightarrow> tb_value \<Rightarrow> bool" where
  "tb_less NegInf NegInf = False"
| "tb_less NegInf (Fin b) = True"
| "tb_less (Fin a) NegInf = False"
| "tb_less (Fin a) (Fin b) = (a < b)"

fun key_less :: "tb_value list \<Rightarrow> tb_value list \<Rightarrow> bool" where
  "key_less [] [] = False"
| "key_less [] (y # ys) = True"
| "key_less (x # xs) [] = False"
| "key_less (x # xs) (y # ys) = (if x = y then key_less xs ys else tb_less x y)"

text \<open>
  A dictionary is an association list in insertion order. \<open>tally ks d\<close> is the loop
  \<^verbatim>\<open>for k in ks: d[k] = d.get(k, 0) + 1\<close>; \<^verbatim>\<open>counts\<close> tallies the cards and
  \<^verbatim>\<open>abs_counts\<close> their absolute values.
\<close>

definition dict_get :: "('k \<times> 'v) list \<Rightarrow> 'k \<Rightarrow> 'v \<Rightarrow> 'v" where
  "dict_get d k dflt = (case map_of d k of None \<Rightarrow> dflt | Some v \<Rightarrow> v)"

fun tally :: "int list \<Rightarrow> (int \<times> nat) list \<Rightarrow> (int \<times> nat) list" where
  "tally [] d = d"
| "tally (k # ks) d = tally ks (AList.update k (dict_get d k 0 + 1) d)"

text \<open>\<^verbatim>\<open>min\<close> and \<^verbatim>\<open>max\<close> raise \<^verbatim>\<open>ValueError\<close> on an empty sequence.\<close>

definition py_min :: "int list \<Rightarrow> error + int" where
  "py_min xs = (case xs of [] \<Rightarrow> Inl ValueError | x # ys \<Rightarrow> Inr (fold min ys x))"

definition py_max :: "int list \<Rightarrow> error + int" where
  "py_max xs = (case xs of [] \<Rightarrow> Inl ValueError | x # ys \<Rightarrow> Inr (fold max ys x))"

text \<open>The last tie-breaker: \<^verbatim>\<open>-max(positive_cards) if positive_cards else float('-inf')\<close>.\<close>

definition neg_max_positive :: "int list \<Rightarrow> error + tb_value" where
  "neg_max_positive positive_cards =
     (if positive_cards \<noteq> [] then
        (case py_max positive_cards of Inl e \<Rightarrow> Inl e | Inr m \<Rightarrow> Inr (Fin (- m)))
      else Inr NegInf)"

definition evaluate_hand :: "player \<Rightarrow> error + (tb_value list \<times> string \<times> int)" where
  "evaluate_hand p =
     (let hand = cards p;
          tot = sum_list hand;
          counts = tally hand [];
          positive_cards = filter (\<lambda>c. c > 0) hand;
          zeros = dict_get counts 0 0;
          abs_counts = tally (map abs hand) []
      in
      if tot = 0 then
        if zeros = 2 \<and> length hand = 2 then
          Inr ([Fin 1], ''Pure Sabacc'', tot)
        else if sort hand = [-10, -10, 0, 10, 10] then
          Inr ([Fin 2], ''Full Sabacc'', tot)
        else if zeros = 1 \<and> list_ex (\<lambda>(v, n). n \<ge> 2) (filter (\<lambda>(v, n). v \<noteq> 0) abs_counts) then
          (case py_min (map abs (filter (\<lambda>c. c \<noteq> 0) hand)) of
             Inl e \<Rightarrow> Inl e
           | Inr m \<Rightarrow> Inr ([Fin 3, Fin m], ''Yee-Haa'', tot))
        else if length (filter (\<lambda>n. n \<ge> 2) (map snd abs_counts)) \<ge> 2 then
          (case py_min (map abs hand) of
             Inl e \<Rightarrow> Inl e
           | Inr m \<Rightarrow> Inr ([Fin 4, Fin m], ''Rule of Two'', tot))
        else if (\<exists>v \<in> set hand. v > 0 \<and> dict_get counts v 0 \<ge> 1 \<and> dict_get counts (- v) 0 \<ge> 1) then
          (case py_min (map abs hand) of
             Inl e \<Rightarrow> Inl e
           | Inr m \<Rightarrow> Inr ([Fin 5, Fin m], ''Sabacc Pair'', tot))
        else
          (case py_min (map abs hand) of
             Inl e \<Rightarrow> Inl e
           | Inr m \<Rightarrow>
              (case neg_max_positive positive_cards of
                 Inl e \<Rightarrow> Inl e
               | Inr nm \<Rightarrow>
                  Inr ([Fin 6, Fin m, Fin (- int (length hand)), Fin (- sum_list positive_cards), nm],
                       ''Sabacc'', tot)))
      else
        (case neg_max_positive positive_cards of
           Inl e \<Rightarrow> Inl e
         | Inr nm \<Rightarrow>
            Inr ([Fin 10, Fin \<bar>tot\<bar>, Fin (if tot > 0 then 0 else 1), Fin (- int (length hand)),
                  Fin (- sum_list positive_cards), nm],
                 ''Nulrhek'', tot)))"

subsection \<open>The ranking table of the specification\<close>

text \<open>
  The rows of the specification's table for a hand whose total is 0, read on the multiset
  \<open>M\<close> of the cards: Pure Sabacc is exactly two cards, both 0; Full Sabacc is the multiset
  \<open>{+10, +10, -10, -10, 0}\<close>; Yee-Haa is exactly one 0 and some nonzero absolute value
  appearing at least twice; Rule of Two is at least two distinct absolute values each
  appearing at least twice; Sabacc Pair is some positive \<open>v\<close> with both \<open>+v\<close> and \<open>-v\<close>
  present. \<open>spec_category\<close> is the rank and the name of the first row that matches, and
  plain Sabacc when none does. These definitions follow the specification, not the code.
\<close>

definition spec_pure_sabacc :: "int multiset \<Rightarrow> bool" where
  "spec_pure_sabacc M \<longleftrightarrow> size M = 2 \<and> (\<forall>c \<in># M. c = 0)"

definition spec_full_sabacc :: "int multiset \<Rightarrow> bool" where
  "spec_full_sabacc M \<longleftrightarrow> M = {#10, 10, - 10, - 10, 0#}"

definition spec_yee_haa :: "int multiset \<Rightarrow> bool" where
  "spec_yee_haa M \<longleftrightarrow>
     count M 0 = 1 \<and> (\<exists>a \<in># image_mset abs M. a \<noteq> 0 \<and> 2 \<le> count (image_mset abs M) a)"

definition spec_rule_of_two :: "int multiset \<Rightarrow> bool" where
  "spec_rule_of_two M \<longleftrightarrow>
     2 \<le> card {a \<in> set_mset (image_mset abs M). 2 \<le> count (image_mset abs M) a}"

definition spec_sabacc_pair :: "int multiset \<Rightarrow> bool" where
  "spec_sabacc_pair M \<longleftrightarrow> (\<exists>v \<in># M. 0 < v \<and> - v \<in># M)"

definition spec_category :: "int multiset \<Rightarrow> int \<times> string" where
  "spec_category M =
     (if spec_pure_sabacc M then (1, ''Pure Sabacc'')
      else if spec_full_sabacc M then (2, ''Full Sabacc'')
      else if spec_yee_haa M then (3, ''Yee-Haa'')
      else if spec_rule_of_two M then (4, ''Rule of Two'')
      else if spec_sabacc_pair M then (5, ''Sabacc Pair'')
      else (6, ''Sabacc''))"

subsection \<open>Class \<^verbatim>\<open>CorelliaGameView\<close>\<close>

text \<open>
  The showdown message of \<^verbatim>\<open>end_game\<close>: either nobody won, or the evaluated hands
  \<^verbatim>\<open>(hand_value, player, hand_type, total)\<close> in sorted order together with the winners.
  The field \<open>game_over\<close> holds the message once it has been sent. Embeds, images and the
  registry \<^verbatim>\<open>active_games\<close> belong to the presentation layer and are left out.
\<close>

type_synonym evaluated = "tb_value list \<times> player \<times> string \<times> int"

datatype showdown = Nobody_Won | Final_Hands "evaluated list" "evaluated list"

record game_view =
  players :: "player list"
  game_started :: bool
  current_player_index :: int
  deck :: "int list"
  rounds :: int
  num_cards :: int
  solo_game :: bool
  total_rounds :: int
  rounds_completed :: int
  first_turn :: bool
  game_over :: "showdown option"

text \<open>
  \<^verbatim>\<open>__init__\<close>. The attributes \<^verbatim>\<open>total_rounds\<close>, \<^verbatim>\<open>rounds_completed\<close> and
  \<^verbatim>\<open>first_turn\<close> do not exist before the game starts; \<^verbatim>\<open>start_game_button\<close> sets
  them before anything reads them.
\<close>

definition CorelliaGameView :: "int \<Rightarrow> int \<Rightarrow> game_view" where
  "CorelliaGameView r n =
     \<lparr>players = [], game_started = False, current_player_index = - 1, deck = [],
      rounds = r, num_cards = n, solo_game = False, total_rounds = 0,
      rounds_completed = 0, first_turn = False, game_over = None\<rparr>"

text \<open>
  A call that mutates the game either returns or raises, and a raised exception keeps
  the mutations made before it. A button callback has four outcomes: it returns early
  with a message to the user (\<open>Rejected\<close>), it announces the next turn (\<open>Next_Turn\<close>),
  it calls \<^verbatim>\<open>end_game\<close> (\<open>Showdown\<close>, with what \<^verbatim>\<open>end_game\<close> did), or it raises
  (\<open>Failed\<close>).
\<close>

datatype 's result = Returned 's | Raised error 's

datatype outcome =
    Rejected game_view
  | Next_Turn game_view
  | Showdown "game_view result"
  | Failed error game_view

text \<open>
  The lobby: \<^verbatim>\<open>play_game_button\<close> and \<^verbatim>\<open>leave_game_button\<close>, pressed by the user
  \<open>uid\<close>. Both answer with a message and change nothing when they refuse.
  \<^verbatim>\<open>update_lobby_embed\<close> resets the lobby when the last player has left.
\<close>

definition play_game_button :: "nat \<Rightarrow> game_view \<Rightarrow> game_view" where
  "play_game_button uid g =
     (if game_started g then g
      else if Human uid \<in> set (map user (players g)) then g
      else if length (players g) \<ge> 8 then g
      else g\<lparr>players := players g @ [Player (Human uid)]\<rparr>)"

definition reset_lobby :: "game_view \<Rightarrow> game_view" where
  "reset_lobby g = g\<lparr>game_started := False, players := [], current_player_index := - 1\<rparr>"

definition leave_game_button :: "nat \<Rightarrow> game_view \<Rightarrow> game_view" where
  "leave_game_button uid g =
     (if game_started g then g
      else
        (case find (\<lambda>p. user p = Human uid) (players g) of
           None \<Rightarrow> g
         | Some p \<Rightarrow>
            (let g1 = g\<lparr>players := remove1 p (players g)\<rparr>
             in if length (players g1) = 0 then reset_lobby g1 else g1)))"

datatype lobby_action = Join nat | Leave nat

fun lobby :: "lobby_action list \<Rightarrow> game_view \<Rightarrow> game_view" where
  "lobby [] g = g"
| "lobby (Join uid # as) g = lobby as (play_game_button uid g)"
| "lobby (Leave uid # as) g = lobby as (leave_game_button uid g)"

fun evaluate_players :: "player list \<Rightarrow> error + evaluated list" where
  "evaluate_players [] = Inr []"
| "evaluate_players (p # ps) =
     (case evaluate_hand p of
        Inl e \<Rightarrow> Inl e
      | Inr (hand_value, hand_type, tot) \<Rightarrow>
         (case evaluate_players ps of
            Inl e \<Rightarrow> Inl e
          | Inr es \<Rightarrow> Inr ((hand_value, p, hand_type, tot) # es)))"

text \<open>\<^verbatim>\<open>evaluated_hands.sort(key=lambda x: x[0])\<close> is a stable sort on the keys.\<close>

fun insort_hand :: "evaluated \<Rightarrow> evaluated list \<Rightarrow> evaluated list" where
  "insort_hand x [] = [x]"
| "insort_hand x (y # ys) =
     (if key_less (fst y) (fst x) then y # insort_hand x ys else x # y # ys)"

definition sort_hands :: "evaluated list \<Rightarrow> evaluated list" where
  "sort_hands es = foldr insort_hand es []"

definition end_game :: "game_view \<Rightarrow> game_view result" where
  "end_game g =
     (case (if solo_game g then
              (case draw_card (Player AIUser) (deck g) of
                 Inl e \<Rightarrow> Raised e g
               | Inr (lando1, dk1) \<Rightarrow>
                  (case draw_card lando1 dk1 of
                     Inl e \<Rightarrow> Raised e (g\<lparr>deck := dk1\<rparr>)
                   | Inr (lando2, dk2) \<Rightarrow>
                      Returned (g\<lparr>deck := dk2, players := players g @ [lando2]\<rparr>)))
            else Returned g) of
        Raised e g1 \<Rightarrow> Raised e g1
      | Returned g1 \<Rightarrow>
         if players g1 = [] then Returned (g1\<lparr>game_over := Some Nobody_Won\<rparr>)
         else
           (case evaluate_players (players g1) of
              Inl e \<Rightarrow> Raised e g1
            | Inr evaluated_hands \<Rightarrow>
               let ranked = sort_hands evaluated_hands;
                   best_hand_value = fst (hd ranked);
                   winners = filter (\<lambda>eh. fst eh = best_hand_value) ranked
               in Returned (g1\<lparr>game_over := Some (Final_Hands ranked winners)\<rparr>)))"

text \<open>Python's \<^verbatim>\<open>%\<close> raises on a zero divisor; for a positive one it is \<open>mod\<close>.\<close>

definition proceed_to_next_player :: "game_view \<Rightarrow> outcome" where
  "proceed_to_next_player g =
     (if players g = [] then Failed ZeroDivisionError g
      else
        let g1 = g\<lparr>current_player_index :=
                     (current_player_index g + 1) mod int (length (players g))\<rparr>
        in
        if current_player_index g1 = 0 \<and> \<not> first_turn g1 then
          let g2 = g1\<lparr>rounds_completed := rounds_completed g1 + 1\<rparr>
          in
          if rounds_completed g2 > total_rounds g2 then Showdown (end_game g2)
          else Next_Turn (g2\<lparr>first_turn := False\<rparr>)
        else Next_Turn (g1\<lparr>first_turn := False\<rparr>))"

text \<open>Dealing: \<^verbatim>\<open>for player in self.players: for _ in range(self.num_cards): ...\<close>.\<close>

fun draw_cards :: "nat \<Rightarrow> player \<Rightarrow> int list \<Rightarrow> (player \<times> int list) result" where
  "draw_cards 0 p dk = Returned (p, dk)"
| "draw_cards (Suc n) p dk =
     (case draw_card p dk of
        Inl e \<Rightarrow> Raised e (p, dk)
      | Inr (p', dk') \<Rightarrow> draw_cards n p' dk')"

fun deal :: "nat \<Rightarrow> player list \<Rightarrow> int list \<Rightarrow> (player list \<times> int list) result" where
  "deal n [] dk = Returned ([], dk)"
| "deal n (p # ps) dk =
     (case draw_cards n p dk of
        Raised e (p', dk') \<Rightarrow> Raised e (p' # ps, dk')
      | Returned (p', dk') \<Rightarrow>
         (case deal n ps dk' of
            Raised e (ps', dk'') \<Rightarrow> Raised e (p' # ps', dk'')
          | Returned (ps', dk'') \<Rightarrow> Returned (p' # ps', dk'')))"

definition set_solo :: "game_view \<Rightarrow> game_view" where
  "set_solo g = (if length (players g) = 1 then g\<lparr>solo_game := True\<rparr> else g)"

text \<open>
  \<^verbatim>\<open>start_game_button\<close>, pressed by the user \<open>uid\<close>; \<open>rnd_deck\<close> and \<open>rnd_players\<close>
  are the random sources of the two shuffles. The solo flag is set after the first turn
  has been announced.
\<close>

definition start_game_button :: "nat \<Rightarrow> (nat \<Rightarrow> nat) \<Rightarrow> (nat \<Rightarrow> nat) \<Rightarrow> game_view \<Rightarrow> outcome" where
  "start_game_button uid rnd_deck rnd_players g =
     (if game_started g then Rejected g
      else if Human uid \<notin> set (map user (players g)) then Rejected g
      else if length (players g) \<ge> 1 then
        (let g1 = g\<lparr>game_started := True, deck := generate_deck rnd_deck,
                    players := shuffle rnd_players (players g)\<rparr>
         in
         case deal (nat (num_cards g1)) (players g1) (deck g1) of
           Raised e (ps, dk) \<Rightarrow> Failed e (g1\<lparr>players := ps, deck := dk\<rparr>)
         | Returned (ps, dk) \<Rightarrow>
            (let g2 = g1\<lparr>players := ps, deck := dk, total_rounds := rounds g1,
                         rounds_completed := 1, first_turn := True\<rparr>
             in
             case proceed_to_next_player g2 of
               Next_Turn g3 \<Rightarrow> Next_Turn (set_solo g3)
             | Showdown (Returned g3) \<Rightarrow> Showdown (Returned (set_solo g3))
             | out \<Rightarrow> out))
      else Rejected g)"

subsection \<open>The turn: \<^verbatim>\<open>TurnView\<close> and \<^verbatim>\<open>CardSelectView\<close>\<close>

text \<open>
  \<^verbatim>\<open>PlayTurnButton\<close> opens a turn view for \<^verbatim>\<open>players[current_player_index]\<close>; the
  callbacks below act on the player at position \<open>i\<close> of the list of players.
  \<^verbatim>\<open>list.pop(k)\<close> raises \<^verbatim>\<open>IndexError\<close> out of range.
\<close>

definition list_index :: "nat \<Rightarrow> int \<Rightarrow> error + nat" where
  "list_index n i =
     (let j = (if i < 0 then i + int n else i)
      in if 0 \<le> j \<and> j < int n then Inr (nat j) else Inl IndexError)"

definition pop :: "nat \<Rightarrow> 'a list \<Rightarrow> error + 'a list" where
  "pop k xs = (if k < length xs then Inr (take k xs @ drop (Suc k) xs) else Inl IndexError)"

definition draw_card_button :: "nat \<Rightarrow> game_view \<Rightarrow> outcome" where
  "draw_card_button i g =
     (case draw_card (players g ! i) (deck g) of
        Inl e \<Rightarrow> Failed e g
      | Inr (p', dk') \<Rightarrow>
         proceed_to_next_player (g\<lparr>players := (players g)[i := p'], deck := dk'\<rparr>))"

text \<open>
  Discarding: \<^verbatim>\<open>discard_card_button\<close> and the card button's callback both refuse a
  hand of one card; the callback then pops the chosen position \<open>k\<close>.
\<close>

definition discard_callback :: "nat \<Rightarrow> nat \<Rightarrow> game_view \<Rightarrow> outcome" where
  "discard_callback i k g =
     (let p = players g ! i
      in
      if length (cards p) \<le> 1 then Rejected g
      else
        (case pop k (cards p) of
           Inl e \<Rightarrow> Failed e g
         | Inr hand \<Rightarrow>
            proceed_to_next_player (g\<lparr>players := (players g)[i := p\<lparr>cards := hand\<rparr>]\<rparr>)))"

text \<open>Replacing: the callback pops the chosen position \<open>k\<close>, then draws.\<close>

definition replace_callback :: "nat \<Rightarrow> nat \<Rightarrow> game_view \<Rightarrow> outcome" where
  "replace_callback i k g =
     (let p = players g ! i
      in
      case pop k (cards p) of
        Inl e \<Rightarrow> Failed e g
      | Inr hand \<Rightarrow>
         (let g1 = g\<lparr>players := (players g)[i := p\<lparr>cards := hand\<rparr>]\<rparr>
          in
          case draw_card (players g1 ! i) (deck g1) of
            Inl e \<Rightarrow> Failed e g1
          | Inr (p', dk') \<Rightarrow>
             proceed_to_next_player (g1\<lparr>players := (players g1)[i := p'], deck := dk'\<rparr>)))"

definition stand_button :: "game_view \<Rightarrow> outcome" where
  "stand_button g = proceed_to_next_player g"

definition junk_button :: "nat \<Rightarrow> game_view \<Rightarrow> outcome" where
  "junk_button i g =
     (let g1 = g\<lparr>players := take i (players g) @ drop (Suc i) (players g)\<rparr>
      in
      if length (players g1) < 2 then Showdown (end_game g1)
      else proceed_to_next_player g1)"

text \<open>\<^verbatim>\<open>on_timeout\<close> logs an exception instead of raising it.\<close>

definition on_timeout :: "game_view \<Rightarrow> outcome" where
  "on_timeout g =
     (case proceed_to_next_player g of
        Failed e g' \<Rightarrow> Rejected g'
      | out \<Rightarrow> out)"

datatype action = Draw | Discard nat | Replace nat | Stand | Junk | Timeout

definition turn_action :: "action \<Rightarrow> game_view \<Rightarrow> outcome" where
  "turn_action a g =
     (case list_index (length (players g)) (current_player_index g) of
        Inl e \<Rightarrow> Failed e g
      | Inr i \<Rightarrow>
         (case a of
            Draw \<Rightarrow> draw_card_button i g
          | Discard k \<Rightarrow> discard_callback i k g
          | Replace k \<Rightarrow> replace_callback i k g
          | Stand \<Rightarrow> stand_button g
          | Junk \<Rightarrow> junk_button i g
          | Timeout \<Rightarrow> on_timeout g))"

text \<open>
  A game goes on after every outcome but the showdown. \<open>play as g\<close> is the state after
  the actions \<open>as\<close>, each taken by the player whose turn it is, when the game is still
  going on.
\<close>

fun continue_with :: "outcome \<Rightarrow> game_view option" where
  "continue_with (Rejected g) = Some g"
| "continue_with (Next_Turn g) = Some g"
| "continue_with (Failed e g) = Some g"
| "continue_with (Showdown r) = None"

fun play :: "action list \<Rightarrow> game_view \<Rightarrow> game_view option" where
  "play [] g = Some g"
| "play (a # as) g =
     (case continue_with (turn_action a g) of
        None \<Rightarrow> None
      | Some g' \<Rightarrow> play as g')"

text \<open>
  \<open>turns_completed as g\<close>: every action of \<open>as\<close> completes its turn, that is, it
  announces the next turn, or it is the last one and leads to the showdown.
\<close>

fun turns_completed :: "action list \<Rightarrow> game_view \<Rightarrow> bool" where
  "turns_completed [] g = True"
| "turns_completed (a # as) g =
     (case turn_action a g of
        Next_Turn g' \<Rightarrow> turns_completed as g'
      | Showdown r \<Rightarrow> as = []
      | Rejected g' \<Rightarrow> False
      | Failed e g' \<Rightarrow> False)"

definition in_progress :: "game_view \<Rightarrow> bool" where
  "in_progress g \<longleftrightarrow> game_started g \<and> game_over g = None"

text \<open>
  \<open>same_control g g'\<close>: the two states differ at most in the hands and in the deck.
\<close>

definition same_control :: "game_view \<Rightarrow> game_view \<Rightarrow> bool" where
  "same_control g g' \<longleftrightarrow>
     length (players g') = length (players g)
     \<and> current_player_index g' = current_player_index g
     \<and> total_rounds g' = total_rounds g
     \<and> rounds_completed g' = rounds_completed g
     \<and> first_turn g' = first_turn g
     \<and> solo_game g' = solo_game g
     \<and> game_started g' = game_started g
     \<and> game_over g' = game_over g"

text \<open>
  \<open>turn_inv k g\<close>: the counters of a game of three players and three rounds in which
  \<open>k\<close> turns have been completed.
\<close>

definition turn_inv :: "nat \<Rightarrow> game_view \<Rightarrow> bool" where
  "turn_inv k g \<longleftrightarrow>
     length (players g) = 3 \<and> total_rounds g = 3 \<and> \<not> first_turn g
     \<and> current_player_index g = int (k mod 3)
     \<and> rounds_completed g = 1 + int (k div 3)"

text \<open>
  \<open>two_players g\<close>: the control state of a game of two players that did not start as a
  solo game.
\<close>

definition two_players :: "game_view \<Rightarrow> bool" where
  "two_players g \<longleftrightarrow>
     length (players g) = 2 \<and> \<not> solo_game g
     \<and> (current_player_index g = 0 \<or> current_player_index g = 1)"

section \<open>Properties\<close>

subsection \<open>Shuffling and the deck\<close>

lemma length_shuffle_loop: "length (shuffle_loop rnd i xs) = length xs"
  by (induction i arbitrary: xs) (simp_all add: Let_def)

lemma mset_shuffle_loop: "i < length xs \<Longrightarrow> mset (shuffle_loop rnd i xs) = mset xs"
proof (induction i arbitrary: xs)
  case 0
  then show ?case by simp
next
  case (Suc i)
  let ?j = "rnd (Suc i) mod (Suc (Suc i))"
  let ?ys = "xs[Suc i := xs ! ?j, ?j := xs ! Suc i]"
  have j: "?j < length xs" using Suc.prems
    by (meson Suc_lessI less_trans_Suc mod_less_divisor not_less_eq zero_less_Suc)
  have "mset ?ys = mset xs"
    using mset_swap [OF j Suc.prems] .
  moreover have "i < length ?ys" using Suc.prems by simp
  ultimately show ?case using Suc.IH [of ?ys] by (simp add: Let_def)
qed

lemma mset_shuffle: "mset (shuffle rnd xs) = mset xs"
proof (cases xs)
  case Nil
  then show ?thesis by (simp add: shuffle_def)
next
  case (Cons x xs')
  then show ?thesis by (simp add: shuffle_def mset_shuffle_loop)
qed

lemma unshuffled_deck_eq:
  "unshuffled_deck =
     [1, 1, 1, 2, 2, 2, 3, 3, 3, 4, 4, 4, 5, 5, 5, 6, 6, 6, 7, 7, 7, 8, 8, 8, 9, 9, 9, 10, 10, 10,
      -1, -1, -1, -2, -2, -2, -3, -3, -3, -4, -4, -4, -5, -5, -5, -6, -6, -6, -7, -7, -7,
      -8, -8, -8, -9, -9, -9, -10, -10, -10, 0, 0]"
  by (simp add: unshuffled_deck_def upto_rec1 numeral_3_eq_3)


lemma count_unshuffled_deck:
  "count (mset unshuffled_deck) v = (if v = 0 then 2 else if - 10 \<le> v \<and> v \<le> 10 then 3 else 0)"
proof -
  consider "v \<in> set [- 10..10]" | "v < - 10" | "10 < v" by fastforce
  then show ?thesis
  proof cases
    case 1
    then have "v = - 10 \<or> v = - 9 \<or> v = - 8 \<or> v = - 7 \<or> v = - 6 \<or> v = - 5 \<or> v = - 4
        \<or> v = - 3 \<or> v = - 2 \<or> v = - 1 \<or> v = 0 \<or> v = 1 \<or> v = 2 \<or> v = 3 \<or> v = 4
        \<or> v = 5 \<or> v = 6 \<or> v = 7 \<or> v = 8 \<or> v = 9 \<or> v = 10"
      by (simp add: upto_rec1)
    then show ?thesis
      unfolding unshuffled_deck_eq by (elim disjE) simp_all
  next
    case 2
    then show ?thesis unfolding unshuffled_deck_eq by simp
  next
    case 3
    then show ?thesis unfolding unshuffled_deck_eq by simp
  qed
qed

lemma length_unshuffled_deck: "length unshuffled_deck = 62"
  unfolding unshuffled_deck_eq by simp

lemma length_shuffle: "length (shuffle rnd xs) = length xs"
  by (simp add: shuffle_def length_shuffle_loop)

lemma hands_mset_update:
  "n < length ps \<Longrightarrow> hands_mset (ps[n := p']) + mset (cards (ps ! n)) = hands_mset ps + mset (cards p')"
proof (induction ps arbitrary: n)
  case Nil
  then show ?case by simp
next
  case (Cons q qs)
  show ?case
  proof (cases n)
    case 0
    then show ?thesis by (simp add: hands_mset_def)
  next
    case (Suc m)
    with Cons.prems have "m < length qs" by simp
    from Cons.IH [OF this] show ?thesis
      using Suc by (simp add: hands_mset_def)
  qed
qed

lemma draw_card_Inr:
  "draw_card p dk = Inr (p', dk') \<longleftrightarrow>
     dk \<noteq> [] \<and> p' = p\<lparr>cards := cards p @ [last dk]\<rparr> \<and> dk' = butlast dk"
  by (auto simp: draw_card_def)

lemma mset_butlast_last: "dk \<noteq> [] \<Longrightarrow> add_mset (last dk) (mset (butlast dk)) = mset dk"
proof -
  assume "dk \<noteq> []"
  then have "mset (butlast dk @ [last dk]) = mset dk" by simp
  then show ?thesis by simp
qed

lemma draws_keep_cards:
  "\<forall>n \<in> set ns. n < length ps \<Longrightarrow> draws ns ps dk = Inr (ps', dk') \<Longrightarrow>
     hands_mset ps' + mset dk' = hands_mset ps + mset dk"
proof (induction ns arbitrary: ps dk)
  case Nil
  then show ?case by simp
next
  case (Cons n ns)
  from Cons.prems(2) obtain p1 dk1 where
    d: "draw_card (ps ! n) dk = Inr (p1, dk1)" and r: "draws ns (ps[n := p1]) dk1 = Inr (ps', dk')"
    by (auto split: sum.splits)
  from d have ne: "dk \<noteq> []" and p1: "p1 = (ps ! n)\<lparr>cards := cards (ps ! n) @ [last dk]\<rparr>"
    and dk1: "dk1 = butlast dk"
    by (simp_all add: draw_card_Inr)
  have n: "n < length ps" using Cons.prems(1) by simp
  have "\<forall>m \<in> set ns. m < length (ps[n := p1])" using Cons.prems(1) by simp
  from Cons.IH [OF this r]
  have "hands_mset ps' + mset dk' = hands_mset (ps[n := p1]) + mset dk1" .
  moreover have "hands_mset (ps[n := p1]) + mset (cards (ps ! n)) = hands_mset ps + mset (cards p1)"
    using hands_mset_update [OF n] .
  then have "hands_mset (ps[n := p1]) = hands_mset ps + {#last dk#}"
    by (simp add: p1)
  ultimately show ?case
    using mset_butlast_last [OF ne] by (simp add: dk1)
qed

lemma draws_succeed:
  "\<forall>n \<in> set ns. n < length ps \<Longrightarrow> length ns \<le> length dk \<Longrightarrow>
     \<exists>ps' dk'. draws ns ps dk = Inr (ps', dk')"
proof (induction ns arbitrary: ps dk)
  case Nil
  then show ?case by simp
next
  case (Cons n ns)
  then have ne: "dk \<noteq> []" by auto
  let ?p = "(ps ! n)\<lparr>cards := cards (ps ! n) @ [last dk]\<rparr>"
  have d: "draw_card (ps ! n) dk = Inr (?p, butlast dk)"
    using ne by (simp add: draw_card_def)
  have "\<forall>m \<in> set ns. m < length (ps[n := ?p])" using Cons.prems(1) by simp
  moreover have "length ns \<le> length (butlast dk)" using Cons.prems(2) by simp
  ultimately obtain ps' dk' where "draws ns (ps[n := ?p]) (butlast dk) = Inr (ps', dk')"
    using Cons.IH by blast
  then show ?case using d by simp
qed

lemma hands_mset_Player: "hands_mset (map Player us) = {#}"
  by (induction us) (simp_all add: hands_mset_def Player_def)

text \<open>
  Claim C3. Whatever the random source, the generated deck has 62 cards: three of every
  value from 1 to 10, three of every value from -1 to -10 and two zeros. Up to 62 draws
  into hands that start empty all succeed, and after any sequence of successful draws the
  cards in the hands together with the rest of the deck are the cards of the generated deck.
\<close>

theorem deck_composition:
  "length (generate_deck rnd) = 62
   \<and> (\<forall>v. count (mset (generate_deck rnd)) v =
            (if v = 0 then 2 else if - 10 \<le> v \<and> v \<le> 10 then 3 else 0))
   \<and> (\<forall>ns us. (\<forall>n \<in> set ns. n < length us) \<and> length ns \<le> 62 \<longrightarrow>
         (\<exists>ps' dk'. draws ns (map Player us) (generate_deck rnd) = Inr (ps', dk')))
   \<and> (\<forall>ns us ps' dk'. (\<forall>n \<in> set ns. n < length us) \<and>
         draws ns (map Player us) (generate_deck rnd) = Inr (ps', dk') \<longrightarrow>
         hands_mset ps' + mset dk' = mset (generate_deck rnd))"
proof -
  have len: "length (generate_deck rnd) = 62"
    by (simp add: generate_deck_def length_shuffle length_unshuffled_deck)
  have cnt: "count (mset (generate_deck rnd)) v =
      (if v = 0 then 2 else if - 10 \<le> v \<and> v \<le> 10 then 3 else 0)" for v
    unfolding generate_deck_def mset_shuffle by (rule count_unshuffled_deck)
  have ok: "\<exists>ps' dk'. draws ns (map Player us) (generate_deck rnd) = Inr (ps', dk')"
    if "\<forall>n \<in> set ns. n < length us" "length ns \<le> 62" for ns us
    using that draws_succeed [of ns "map Player us" "generate_deck rnd"] len by simp
  have keep: "hands_mset ps' + mset dk' = mset (generate_deck rnd)"
    if "\<forall>n \<in> set ns. n < length us" "draws ns (map Player us) (generate_deck rnd) = Inr (ps', dk')"
    for ns us ps' dk'
    using draws_keep_cards [of ns "map Player us" "generate_deck rnd" ps' dk'] that
    by (simp add: hands_mset_Player)
  show ?thesis using len cnt ok keep by blast
qed

theorem deck_composition_witness:
  "length (generate_deck (\<lambda>i. 0)) = 62
   \<and> count (mset (generate_deck (\<lambda>i. 0))) 7 = 3
   \<and> count (mset (generate_deck (\<lambda>i. 0))) 0 = 2
   \<and> (\<exists>ps' dk'. draws [0, 1, 0] (map Player [Human 1, Human 2]) (generate_deck (\<lambda>i. 0)) = Inr (ps', dk')
         \<and> hands_mset ps' + mset dk' = mset (generate_deck (\<lambda>i. 0)))"
proof -
  note t = deck_composition [of "\<lambda>i. 0"]
  have h: "\<forall>n \<in> set [0, 1, 0::nat]. n < length [Human 1, Human 2]" by simp
  have l: "length [0, 1, 0::nat] \<le> 62" by simp
  from t have "\<exists>ps' dk'. draws [0, 1, 0] (map Player [Human 1, Human 2]) (generate_deck (\<lambda>i. 0)) = Inr (ps', dk')"
    using h l by blast
  then obtain ps' dk' where
    d: "draws [0, 1, 0] (map Player [Human 1, Human 2]) (generate_deck (\<lambda>i. 0)) = Inr (ps', dk')"
    by blast
  from t h d have "hands_mset ps' + mset dk' = mset (generate_deck (\<lambda>i. 0))"
    by blast
  moreover from t have "length (generate_deck (\<lambda>i. 0)) = 62" by blast
  moreover from t have "count (mset (generate_deck (\<lambda>i. 0))) 7 = 3"
    by (simp del: count_mset)
  moreover from t have "count (mset (generate_deck (\<lambda>i. 0))) 0 = 2"
    by (simp del: count_mset)
  ultimately show ?thesis using d by blast
qed

subsection \<open>Discarding and replacing\<close>

text \<open>
  Claim C5. \<^verbatim>\<open>discard_card\<close> returns \<^verbatim>\<open>True\<close> exactly when the card is in the hand
  and the hand has more than one card; it then removes one occurrence of the card (the
  first) and nothing else. In every other case it returns \<^verbatim>\<open>False\<close> and the player is
  unchanged; in particular on a hand of one card.
\<close>

theorem discard_card_rule:
  "(fst (discard_card c p) \<longleftrightarrow> c \<in> set (cards p) \<and> 1 < length (cards p))
   \<and> (fst (discard_card c p) \<longrightarrow>
        snd (discard_card c p) = p\<lparr>cards := remove1 c (cards p)\<rparr>
        \<and> mset (cards (snd (discard_card c p))) + {#c#} = mset (cards p)
        \<and> length (cards (snd (discard_card c p))) + 1 = length (cards p))
   \<and> (\<not> fst (discard_card c p) \<longrightarrow> snd (discard_card c p) = p)
   \<and> (length (cards p) = 1 \<longrightarrow> discard_card c p = (False, p))"
  by (auto simp: discard_card_def length_remove1)

theorem discard_card_rule_witness:
  "discard_card 3 \<lparr>user = Human 1, cards = [3, - 3, 3]\<rparr> = (True, \<lparr>user = Human 1, cards = [- 3, 3]\<rparr>)
   \<and> discard_card 3 \<lparr>user = Human 1, cards = [3]\<rparr> = (False, \<lparr>user = Human 1, cards = [3]\<rparr>)
   \<and> discard_card 5 \<lparr>user = Human 1, cards = [3, - 3]\<rparr> = (False, \<lparr>user = Human 1, cards = [3, - 3]\<rparr>)"
  using discard_card_rule [of 3 "\<lparr>user = Human 1, cards = [3, - 3, 3]\<rparr>"]
        discard_card_rule [of 3 "\<lparr>user = Human 1, cards = [3]\<rparr>"]
        discard_card_rule [of 5 "\<lparr>user = Human 1, cards = [3, - 3]\<rparr>"]
  by (simp add: prod_eq_iff)

text \<open>
  Claim C4, as stated, fails: with the card in the hand and an empty deck,
  \<^verbatim>\<open>replace_card\<close> returns \<^verbatim>\<open>False\<close>.
\<close>

theorem replace_card_empty_deck:
  "3 \<in> set (cards \<lparr>user = Human 1, cards = [3]\<rparr>)
   \<and> replace_card 3 \<lparr>user = Human 1, cards = [3]\<rparr> [] = Inr (False, \<lparr>user = Human 1, cards = [3]\<rparr>, [])"
  by (simp add: replace_card_def)

text \<open>
  Claim C4, amended. \<^verbatim>\<open>replace_card\<close> succeeds exactly when the card is in the hand
  and the deck is not empty. It then removes one occurrence of the card, appends the last
  card of the deck and takes that card off the deck, so the hand keeps its size; otherwise
  it returns \<^verbatim>\<open>False\<close> and changes nothing. A hand of one card is replaced like any
  other: there is no floor on the size.
\<close>

theorem replace_card_rule:
  "((\<exists>p' dk'. replace_card c p dk = Inr (True, p', dk')) \<longleftrightarrow> c \<in> set (cards p) \<and> dk \<noteq> [])
   \<and> (c \<in> set (cards p) \<and> dk \<noteq> [] \<longrightarrow>
        replace_card c p dk = Inr (True, p\<lparr>cards := remove1 c (cards p) @ [last dk]\<rparr>, butlast dk)
        \<and> mset (remove1 c (cards p) @ [last dk]) + {#c#} = mset (cards p) + {#last dk#}
        \<and> mset (butlast dk) + {#last dk#} = mset dk
        \<and> length (remove1 c (cards p) @ [last dk]) = length (cards p))
   \<and> (\<not> (c \<in> set (cards p) \<and> dk \<noteq> []) \<longrightarrow> replace_card c p dk = Inr (False, p, dk))
   \<and> (cards p = [c] \<and> dk \<noteq> [] \<longrightarrow>
        replace_card c p dk = Inr (True, p\<lparr>cards := [last dk]\<rparr>, butlast dk))"
proof -
  have len: "length (remove1 c (cards p) @ [last dk]) = length (cards p)" if "c \<in> set (cards p)"
    using that by (simp add: length_remove1) (metis length_pos_if_in_set Suc_pred)
  have dk: "mset (butlast dk) + {#last dk#} = mset dk" if "dk \<noteq> []"
  proof -
    from that have "mset (butlast dk @ [last dk]) = mset dk" by simp
    then show ?thesis by simp
  qed
  show ?thesis
    using len dk by (auto simp: replace_card_def draw_card_def)
qed

theorem replace_card_rule_witness:
  "replace_card 3 \<lparr>user = Human 1, cards = [3]\<rparr> [7, 8] = Inr (True, \<lparr>user = Human 1, cards = [8]\<rparr>, [7])
   \<and> replace_card 3 \<lparr>user = Human 1, cards = [3]\<rparr> [] = Inr (False, \<lparr>user = Human 1, cards = [3]\<rparr>, [])
   \<and> replace_card 5 \<lparr>user = Human 1, cards = [3, 4]\<rparr> [7, 8] = Inr (False, \<lparr>user = Human 1, cards = [3, 4]\<rparr>, [7, 8])"
  using replace_card_rule [of 3 "\<lparr>user = Human 1, cards = [3]\<rparr>" "[7, 8]"]
        replace_card_rule [of 3 "\<lparr>user = Human 1, cards = [3]\<rparr>" "[]"]
        replace_card_rule [of 5 "\<lparr>user = Human 1, cards = [3, 4]\<rparr>" "[7, 8]"]
  by simp

subsection \<open>Tallies\<close>

lemma dict_get_update:
  "dict_get (AList.update k v d) k' dflt = (if k' = k then v else dict_get d k' dflt)"
  by (simp add: dict_get_def update_conv')

lemma dict_get_tally:
  "dict_get (tally ks d) k 0 = dict_get d k 0 + count (mset ks) k"
  by (induction ks arbitrary: d) (simp_all add: dict_get_update)

lemma dict_get_Nil: "dict_get [] k dflt = dflt"
  by (simp add: dict_get_def)

lemma counts_get: "dict_get (tally ks []) k 0 = count (mset ks) k"
  by (simp add: dict_get_tally dict_get_Nil)

lemma map_of_tally:
  "map_of (tally ks d) k =
     (if k \<in> set ks then Some (dict_get d k 0 + count (mset ks) k) else map_of d k)"
proof (induction ks arbitrary: d)
  case Nil
  then show ?case by simp
next
  case (Cons a ks)
  show ?case
    by (simp add: Cons.IH dict_get_update update_conv')
qed

lemma distinct_tally: "distinct (map fst d) \<Longrightarrow> distinct (map fst (tally ks d))"
  by (induction ks arbitrary: d) (simp_all add: distinct_update)

lemma set_tally: "set (tally ks []) = (\<lambda>k. (k, count (mset ks) k)) ` set ks"
proof -
  have d: "distinct (map fst (tally ks []))" by (simp add: distinct_tally)
  have "(k, n) \<in> set (tally ks []) \<longleftrightarrow> k \<in> set ks \<and> n = count (mset ks) k" for k n
    using map_of_eq_Some_iff [OF d, of k n]
    by (auto simp: map_of_tally dict_get_Nil split: if_splits)
  then show ?thesis by auto
qed

lemma distinct_tally_Nil: "distinct (tally ks [])"
  using distinct_tally [of "[]" ks] by (simp add: distinct_map)

lemma tally_any:
  "list_ex (\<lambda>(v, n). 2 \<le> n) (filter (\<lambda>(v, n). v \<noteq> 0) (tally ks []))
     \<longleftrightarrow> (\<exists>a \<in># mset ks. a \<noteq> 0 \<and> 2 \<le> count (mset ks) a)"
  by (auto simp: list_ex_iff set_tally)

lemma tally_pairs:
  "length (filter (\<lambda>n. 2 \<le> n) (map snd (tally ks [])))
     = card {a \<in> set_mset (mset ks). 2 \<le> count (mset ks) a}"
proof -
  let ?f = "\<lambda>k. (k, count (mset ks) k)"
  have "length (filter (\<lambda>n. 2 \<le> n) (map snd (tally ks [])))
      = length (filter ((\<lambda>n. 2 \<le> n) \<circ> snd) (tally ks []))"
    by (simp add: filter_map)
  also have "\<dots> = card (set (filter ((\<lambda>n. 2 \<le> n) \<circ> snd) (tally ks [])))"
    using distinct_card [OF distinct_filter [OF distinct_tally_Nil [of ks]]] by (simp add: comp_def)
  also have "set (filter ((\<lambda>n. 2 \<le> n) \<circ> snd) (tally ks []))
      = ?f ` {a \<in> set ks. 2 \<le> count (mset ks) a}"
    by (auto simp: set_tally)
  also have "card (?f ` {a \<in> set ks. 2 \<le> count (mset ks) a}) = card {a \<in> set ks. 2 \<le> count (mset ks) a}"
    by (rule card_image) (simp add: inj_on_def)
  finally show ?thesis by simp
qed

subsection \<open>The parts of \<^verbatim>\<open>evaluate_hand\<close>\<close>

lemma py_min_eq: "py_min xs = (if xs = [] then Inl ValueError else Inr (Min (set xs)))"
proof (cases xs)
  case Nil
  then show ?thesis by (simp add: py_min_def)
next
  case (Cons a ys)
  have "fold min ys a = Min (set (a # ys))" by (rule Min.set_eq_fold [symmetric])
  then show ?thesis using Cons by (simp add: py_min_def)
qed

lemma py_max_eq: "py_max xs = (if xs = [] then Inl ValueError else Inr (Max (set xs)))"
proof (cases xs)
  case Nil
  then show ?thesis by (simp add: py_max_def)
next
  case (Cons a ys)
  have "fold max ys a = Max (set (a # ys))" by (rule Max.set_eq_fold [symmetric])
  then show ?thesis using Cons by (simp add: py_max_def)
qed

lemma neg_max_positive_eq:
  "neg_max_positive xs = Inr (if xs = [] then NegInf else Fin (- Max (set xs)))"
  by (simp add: neg_max_positive_def py_max_eq)

lemma pure_sabacc_iff:
  "count (mset xs) 0 = 2 \<and> length xs = 2 \<longleftrightarrow> spec_pure_sabacc (mset xs)"
proof (cases xs)
  case Nil
  then show ?thesis by (simp add: spec_pure_sabacc_def)
next
  case (Cons a ys)
  then show ?thesis
    by (cases ys) (auto simp: spec_pure_sabacc_def)
qed

lemma full_sabacc_iff:
  "sort xs = [- 10, - 10, 0, 10, 10] \<longleftrightarrow> spec_full_sabacc (mset xs)"
proof
  assume "sort xs = [- 10, - 10, 0, 10, 10]"
  then have "mset (sort xs) = mset [- 10, - 10, 0, 10, 10 :: int]" by simp
  then show "spec_full_sabacc (mset xs)"
    by (simp add: spec_full_sabacc_def)
next
  assume "spec_full_sabacc (mset xs)"
  then have "mset [- 10, - 10, 0, 10, 10 :: int] = mset xs"
    by (simp add: spec_full_sabacc_def)
  then show "sort xs = [- 10, - 10, 0, 10, 10]"
    by (rule properties_for_sort) simp
qed

lemma yee_haa_iff:
  "dict_get (tally xs []) 0 0 = 1 \<and>
     list_ex (\<lambda>(v, n). 2 \<le> n) (filter (\<lambda>(v, n). v \<noteq> 0) (tally (map abs xs) []))
   \<longleftrightarrow> spec_yee_haa (mset xs)"
  by (simp add: counts_get tally_any spec_yee_haa_def)

lemma rule_of_two_iff:
  "2 \<le> length (filter (\<lambda>n. 2 \<le> n) (map snd (tally (map abs xs) [])))
   \<longleftrightarrow> spec_rule_of_two (mset xs)"
  using tally_pairs [of "map abs xs"] by (simp add: spec_rule_of_two_def)

lemma sabacc_pair_iff:
  "(\<exists>v \<in> set xs. 0 < v \<and> 1 \<le> dict_get (tally xs []) v 0 \<and> 1 \<le> dict_get (tally xs []) (- v) 0)
   \<longleftrightarrow> spec_sabacc_pair (mset xs)"
  by (auto simp: counts_get spec_sabacc_pair_def Suc_le_eq)

lemma pure_sabacc_cond:
  "dict_get (tally xs []) 0 0 = 2 \<and> length xs = 2 \<longleftrightarrow> spec_pure_sabacc (mset xs)"
  using pure_sabacc_iff [of xs] by (simp add: counts_get)

lemma yee_haa_nonzero: "spec_yee_haa (mset xs) \<Longrightarrow> filter (\<lambda>c. c \<noteq> 0) xs \<noteq> []"
  by (auto simp: spec_yee_haa_def filter_empty_conv)

lemmas evaluate_conds =
  pure_sabacc_cond full_sabacc_iff yee_haa_iff rule_of_two_iff sabacc_pair_iff

lemma evaluate_hand_zero:
  assumes "cards p \<noteq> []" and "sum_list (cards p) = 0"
  shows "\<exists>tbs. evaluate_hand p =
           Inr (Fin (fst (spec_category (mset (cards p)))) # tbs,
                snd (spec_category (mset (cards p))), 0)"
  unfolding evaluate_hand_def Let_def evaluate_conds
  using assms
  by (simp add: spec_category_def py_min_eq neg_max_positive_eq yee_haa_nonzero)

lemma evaluate_hand_nonzero:
  assumes "sum_list (cards p) \<noteq> 0"
  shows "evaluate_hand p =
           Inr ([Fin 10, Fin \<bar>sum_list (cards p)\<bar>, Fin (if 0 < sum_list (cards p) then 0 else 1),
                 Fin (- int (length (cards p))), Fin (- sum_list (filter (\<lambda>c. 0 < c) (cards p))),
                 (if filter (\<lambda>c. 0 < c) (cards p) = [] then NegInf
                  else Fin (- Max (set (filter (\<lambda>c. 0 < c) (cards p)))))],
                ''Nulrhek'', sum_list (cards p))"
  unfolding evaluate_hand_def Let_def
  using assms by (simp add: neg_max_positive_eq)

lemma evaluate_hand_empty: "cards p = [] \<Longrightarrow> evaluate_hand p = Inl ValueError"
  by (simp add: evaluate_hand_def Let_def dict_get_def py_min_def)

lemma evaluate_hand_returns:
  assumes "cards p \<noteq> []"
  shows "\<exists>r. evaluate_hand p = Inr r"
proof (cases "sum_list (cards p) = 0")
  case True
  with assms evaluate_hand_zero [of p] show ?thesis by blast
next
  case False
  then show ?thesis by (simp add: evaluate_hand_nonzero)
qed

lemma evaluate_hand_perm:
  assumes "mset (cards p) = mset (cards q)"
  shows "evaluate_hand p = evaluate_hand q"
proof -
  let ?xs = "cards p" and ?ys = "cards q"
  have l: "length ?xs = length ?ys" using assms by (rule mset_eq_length)
  have t: "sum_list ?xs = sum_list ?ys"
    using assms by (metis sum_mset_sum_list)
  have p: "mset (filter (\<lambda>c. 0 < c) ?xs) = mset (filter (\<lambda>c. 0 < c) ?ys)"
    using assms by simp
  have ps: "sum_list (filter (\<lambda>c. 0 < c) ?xs) = sum_list (filter (\<lambda>c. 0 < c) ?ys)"
    using p by (metis sum_mset_sum_list)
  have pe: "(filter (\<lambda>c. 0 < c) ?xs = []) = (filter (\<lambda>c. 0 < c) ?ys = [])"
    using mset_eq_length [OF p] by auto
  have pm: "set (filter (\<lambda>c. 0 < c) ?xs) = set (filter (\<lambda>c. 0 < c) ?ys)"
    using p by (rule mset_eq_setD)
  have z: "mset (map abs (filter (\<lambda>c. c \<noteq> 0) ?xs)) = mset (map abs (filter (\<lambda>c. c \<noteq> 0) ?ys))"
    using assms by simp
  have ze: "(map abs (filter (\<lambda>c. c \<noteq> 0) ?xs) = []) = (map abs (filter (\<lambda>c. c \<noteq> 0) ?ys) = [])"
    using mset_eq_length [OF z] by auto
  have zs: "set (map abs (filter (\<lambda>c. c \<noteq> 0) ?xs)) = set (map abs (filter (\<lambda>c. c \<noteq> 0) ?ys))"
    using z by (rule mset_eq_setD)
  have a: "mset (map abs ?xs) = mset (map abs ?ys)"
    using assms by simp
  have ae: "(map abs ?xs = []) = (map abs ?ys = [])"
    using mset_eq_length [OF a] by auto
  have as: "set (map abs ?xs) = set (map abs ?ys)"
    using a by (rule mset_eq_setD)
  show ?thesis
    unfolding evaluate_hand_def Let_def evaluate_conds py_min_eq neg_max_positive_eq
    by (simp only: assms l t ps pe pm ze zs ae as)
qed

subsection \<open>Claims about \<^verbatim>\<open>evaluate_hand\<close>\<close>

text \<open>
  Claim C10. \<^verbatim>\<open>evaluate_hand\<close> returns a result for every hand that is not empty. The
  empty hand has total 0 and matches no category; the plain Sabacc branch then takes the
  minimum of an empty sequence and raises \<^verbatim>\<open>ValueError\<close>.
\<close>

theorem evaluate_hand_domain:
  "(cards p \<noteq> [] \<longrightarrow> (\<exists>r. evaluate_hand p = Inr r))
   \<and> (cards p = [] \<longrightarrow> sum_list (cards p) = 0 \<and> evaluate_hand p = Inl ValueError)"
  using evaluate_hand_returns [of p] evaluate_hand_empty [of p] by simp

theorem evaluate_hand_domain_witness:
  "(\<exists>r. evaluate_hand \<lparr>user = Human 1, cards = [4]\<rparr> = Inr r)
   \<and> evaluate_hand \<lparr>user = Human 1, cards = []\<rparr> = Inl ValueError"
  using evaluate_hand_domain [of "\<lparr>user = Human 1, cards = [4]\<rparr>"]
        evaluate_hand_domain [of "\<lparr>user = Human 1, cards = []\<rparr>"]
  by simp

text \<open>
  Claim C9. Two hands with the same cards in any order evaluate to the same result: the
  same key (rank and tie-breakers), the same hand type and the same total.
\<close>

theorem evaluate_hand_order_independent:
  "mset (cards p) = mset (cards q) \<Longrightarrow> evaluate_hand p = evaluate_hand q"
  by (rule evaluate_hand_perm)

theorem evaluate_hand_order_independent_witness:
  "mset (cards \<lparr>user = Human 1, cards = [3, - 3, 0, 7]\<rparr>) = mset (cards \<lparr>user = Human 2, cards = [7, 0, 3, - 3]\<rparr>)
   \<and> evaluate_hand \<lparr>user = Human 1, cards = [3, - 3, 0, 7]\<rparr>
       = evaluate_hand \<lparr>user = Human 2, cards = [7, 0, 3, - 3]\<rparr>"
proof -
  have h: "mset (cards \<lparr>user = Human 1, cards = [3, - 3, 0, 7]\<rparr>)
         = mset (cards \<lparr>user = Human 2, cards = [7, 0, 3, - 3]\<rparr>)"
    by simp
  from evaluate_hand_order_independent [OF h] h show ?thesis by blast
qed

text \<open>
  Claim C2. Of two hands whose totals are not 0, the one with the smaller absolute total
  has the smaller key; when the absolute totals are equal and the signs differ, the hand
  with the positive total has the smaller key.
\<close>

theorem nulrhek_order:
  "sum_list (cards p) \<noteq> 0 \<and> sum_list (cards q) \<noteq> 0 \<longrightarrow>
     (\<exists>kp kq. evaluate_hand p = Inr (kp, ''Nulrhek'', sum_list (cards p))
        \<and> evaluate_hand q = Inr (kq, ''Nulrhek'', sum_list (cards q))
        \<and> (\<bar>sum_list (cards p)\<bar> < \<bar>sum_list (cards q)\<bar> \<longrightarrow> key_less kp kq)
        \<and> (\<bar>sum_list (cards p)\<bar> = \<bar>sum_list (cards q)\<bar> \<and> 0 < sum_list (cards p)
             \<and> sum_list (cards q) < 0 \<longrightarrow> key_less kp kq))"
  by (auto simp: evaluate_hand_nonzero)

theorem nulrhek_order_witness:
  "(\<exists>kp kq. evaluate_hand \<lparr>user = Human 1, cards = [1, 2]\<rparr> = Inr (kp, ''Nulrhek'', 3)
        \<and> evaluate_hand \<lparr>user = Human 2, cards = [- 5]\<rparr> = Inr (kq, ''Nulrhek'', - 5)
        \<and> key_less kp kq)
   \<and> (\<exists>kp kq. evaluate_hand \<lparr>user = Human 1, cards = [5]\<rparr> = Inr (kp, ''Nulrhek'', 5)
        \<and> evaluate_hand \<lparr>user = Human 2, cards = [- 5]\<rparr> = Inr (kq, ''Nulrhek'', - 5)
        \<and> key_less kp kq)"
  using nulrhek_order [of "\<lparr>user = Human 1, cards = [1, 2]\<rparr>" "\<lparr>user = Human 2, cards = [- 5]\<rparr>"]
        nulrhek_order [of "\<lparr>user = Human 1, cards = [5]\<rparr>" "\<lparr>user = Human 2, cards = [- 5]\<rparr>"]
  by simp

text \<open>
  Claim C1, as stated, fails at the empty hand: its cards sum to 0 and \<^verbatim>\<open>evaluate_hand\<close>
  raises instead of assigning a category.
\<close>

theorem evaluate_empty_hand:
  "sum_list (cards \<lparr>user = Human 1, cards = []\<rparr>) = 0
   \<and> evaluate_hand \<lparr>user = Human 1, cards = []\<rparr> = Inl ValueError"
  by (simp add: evaluate_hand_empty)

text \<open>
  Claim C1, amended. For every hand that is not empty and whose cards sum to 0,
  \<^verbatim>\<open>evaluate_hand\<close> returns the rank and the name of the first matching row of the
  ranking table. The hand \<open>[0, 0]\<close> is Pure Sabacc with rank 1 and no tie-breaker, the hand
  \<open>[3, -3]\<close> is Sabacc Pair with rank 5 and tie-breakers \<open>[3]\<close>, and the key of \<open>[3, -3]\<close> is
  smaller than the key of \<open>[5, -5]\<close>.
\<close>

theorem evaluate_zero_total:
  "(cards p \<noteq> [] \<and> sum_list (cards p) = 0 \<longrightarrow>
      (\<exists>tbs. evaluate_hand p =
         Inr (Fin (fst (spec_category (mset (cards p)))) # tbs,
              snd (spec_category (mset (cards p))), 0)))
   \<and> evaluate_hand (p\<lparr>cards := [0, 0]\<rparr>) = Inr ([Fin 1], ''Pure Sabacc'', 0)
   \<and> evaluate_hand (p\<lparr>cards := [3, - 3]\<rparr>) = Inr ([Fin 5, Fin 3], ''Sabacc Pair'', 0)
   \<and> evaluate_hand (p\<lparr>cards := [5, - 5]\<rparr>) = Inr ([Fin 5, Fin 5], ''Sabacc Pair'', 0)
   \<and> key_less [Fin 5, Fin 3] [Fin 5, Fin 5]"
proof -
  have a: "evaluate_hand (p\<lparr>cards := [0, 0]\<rparr>) = Inr ([Fin 1], ''Pure Sabacc'', 0)"
    by (simp add: evaluate_hand_def dict_get_def)
  have b: "evaluate_hand (p\<lparr>cards := [3, - 3]\<rparr>) = Inr ([Fin 5, Fin 3], ''Sabacc Pair'', 0)"
    by (simp add: evaluate_hand_def dict_get_def py_min_def)
  have c: "evaluate_hand (p\<lparr>cards := [5, - 5]\<rparr>) = Inr ([Fin 5, Fin 5], ''Sabacc Pair'', 0)"
    by (simp add: evaluate_hand_def dict_get_def py_min_def)
  show ?thesis
    using evaluate_hand_zero [of p] a b c by simp
qed

theorem evaluate_zero_total_witness:
  "cards \<lparr>user = Human 1, cards = [10, - 10, 0]\<rparr> \<noteq> []
   \<and> sum_list (cards \<lparr>user = Human 1, cards = [10, - 10, 0]\<rparr>) = 0
   \<and> spec_category (mset [10, - 10, 0]) = (3, ''Yee-Haa'')
   \<and> (\<exists>tbs. evaluate_hand \<lparr>user = Human 1, cards = [10, - 10, 0]\<rparr> = Inr (Fin 3 # tbs, ''Yee-Haa'', 0))
   \<and> evaluate_hand \<lparr>user = Human 1, cards = [3, - 3]\<rparr> = Inr ([Fin 5, Fin 3], ''Sabacc Pair'', 0)"
proof -
  have s: "spec_category (mset [10, - 10, 0]) = (3, ''Yee-Haa'')"
    by (simp add: spec_category_def spec_pure_sabacc_def spec_full_sabacc_def spec_yee_haa_def)
  show ?thesis
    using evaluate_zero_total [of "\<lparr>user = Human 1, cards = [10, - 10, 0]\<rparr>"] s
    by simp
qed

subsection \<open>Turns\<close>

lemma same_control_refl: "same_control g g"
  by (simp add: same_control_def)

lemma proceed_Failed:
  "proceed_to_next_player g = Failed e g' \<Longrightarrow> g' = g \<and> players g = []"
  by (auto simp: proceed_to_next_player_def Let_def split: if_splits)

lemma turn_action_no_junk:
  assumes "a \<noteq> Junk"
  shows "\<exists>g'. same_control g g' \<and>
           (turn_action a g = Rejected g' \<or> (\<exists>e. turn_action a g = Failed e g')
            \<or> turn_action a g = proceed_to_next_player g')"
proof (cases "list_index (length (players g)) (current_player_index g)")
  case (Inl e)
  then have "turn_action a g = Failed e g" by (simp add: turn_action_def)
  then show ?thesis using same_control_refl by blast
next
  case (Inr i)
  show ?thesis
  proof (cases a)
    case Draw
    show ?thesis
    proof (cases "deck g = []")
      case True
      then have "turn_action a g = Failed ValueError g" using Draw Inr
        by (simp add: turn_action_def draw_card_button_def draw_card_def)
      then show ?thesis using same_control_refl by blast
    next
      case False
      let ?g = "g\<lparr>players := (players g)[i := (players g ! i)\<lparr>cards := cards (players g ! i) @ [last (deck g)]\<rparr>],
                   deck := butlast (deck g)\<rparr>"
      have "turn_action a g = proceed_to_next_player ?g" using Draw Inr False
        by (simp add: turn_action_def draw_card_button_def draw_card_def)
      moreover have "same_control g ?g" by (simp add: same_control_def)
      ultimately show ?thesis by blast
    qed
  next
    case (Discard k)
    let ?p = "players g ! i"
    show ?thesis
    proof (cases "length (cards ?p) \<le> 1")
      case True
      then have "turn_action a g = Rejected g" using Discard Inr
        by (simp add: turn_action_def discard_callback_def Let_def)
      then show ?thesis using same_control_refl by blast
    next
      case False
      show ?thesis
      proof (cases "k < length (cards ?p)")
        case True
        let ?g = "g\<lparr>players := (players g)[i := ?p\<lparr>cards := take k (cards ?p) @ drop (Suc k) (cards ?p)\<rparr>]\<rparr>"
        have "turn_action a g = proceed_to_next_player ?g" using Discard Inr True \<open>\<not> length (cards ?p) \<le> 1\<close>
          by (simp add: turn_action_def discard_callback_def pop_def Let_def)
        moreover have "same_control g ?g" by (simp add: same_control_def)
        ultimately show ?thesis by blast
      next
        case False
        then have "turn_action a g = Failed IndexError g" using Discard Inr \<open>\<not> length (cards ?p) \<le> 1\<close>
          by (simp add: turn_action_def discard_callback_def pop_def Let_def)
        then show ?thesis using same_control_refl by blast
      qed
    qed
  next
    case (Replace k)
    let ?p = "players g ! i"
    show ?thesis
    proof (cases "k < length (cards ?p)")
      case False
      then have "turn_action a g = Failed IndexError g" using Replace Inr
        by (simp add: turn_action_def replace_callback_def pop_def Let_def)
      then show ?thesis using same_control_refl by blast
    next
      case True
      let ?g1 = "g\<lparr>players := (players g)[i := ?p\<lparr>cards := take k (cards ?p) @ drop (Suc k) (cards ?p)\<rparr>]\<rparr>"
      have c1: "same_control g ?g1" by (simp add: same_control_def)
      show ?thesis
      proof (cases "deck g = []")
        case True
        then have "turn_action a g = Failed ValueError ?g1" using Replace Inr \<open>k < length (cards ?p)\<close>
          by (simp add: turn_action_def replace_callback_def pop_def draw_card_def Let_def)
        then show ?thesis using c1 by blast
      next
        case False
        let ?g2 = "?g1\<lparr>players := (players ?g1)[i := (players ?g1 ! i)\<lparr>cards := cards (players ?g1 ! i) @ [last (deck g)]\<rparr>],
                     deck := butlast (deck g)\<rparr>"
        have "turn_action a g = proceed_to_next_player ?g2" using Replace Inr False \<open>k < length (cards ?p)\<close>
          by (simp add: turn_action_def replace_callback_def pop_def draw_card_def Let_def)
        moreover have "same_control g ?g2" by (simp add: same_control_def)
        ultimately show ?thesis by blast
      qed
    qed
  next
    case Stand
    then show ?thesis using Inr same_control_refl
      by (auto simp: turn_action_def stand_button_def)
  next
    case Junk
    with assms show ?thesis by simp
  next
    case Timeout
    show ?thesis
    proof (cases "proceed_to_next_player g")
      case (Failed e g')
      then have "turn_action a g = Rejected g" using Timeout Inr proceed_Failed [OF Failed]
        by (simp add: turn_action_def on_timeout_def)
      then show ?thesis using same_control_refl by blast
    next
      case (Rejected g')
      then have "turn_action a g = proceed_to_next_player g" using Timeout Inr
        by (simp add: turn_action_def on_timeout_def)
      then show ?thesis using same_control_refl by blast
    next
      case (Next_Turn g')
      then have "turn_action a g = proceed_to_next_player g" using Timeout Inr
        by (simp add: turn_action_def on_timeout_def)
      then show ?thesis using same_control_refl by blast
    next
      case (Showdown r)
      then have "turn_action a g = proceed_to_next_player g" using Timeout Inr
        by (simp add: turn_action_def on_timeout_def)
      then show ?thesis using same_control_refl by blast
    qed
  qed
qed

subsection \<open>Starting the game\<close>

lemma draw_cards_user:
  "draw_cards n p dk = Returned (p', dk') \<Longrightarrow> user p' = user p"
  by (induction n arbitrary: p dk) (auto simp: draw_card_def split: if_splits)

lemma deal_length:
  "deal n ps dk = Returned (ps', dk') \<Longrightarrow> length ps' = length ps"
  by (induction ps arbitrary: dk ps' dk') (auto split: result.splits)

lemma start_game_button_Next_Turn:
  assumes "start_game_button uid rd rp g = Next_Turn g0" and "current_player_index g = - 1"
  shows "length (players g0) = length (players g) \<and> total_rounds g0 = rounds g
     \<and> rounds_completed g0 = 1 \<and> \<not> first_turn g0 \<and> current_player_index g0 = 0
     \<and> solo_game g0 = (solo_game g \<or> length (players g) = 1)
     \<and> game_started g0 \<and> game_over g0 = game_over g"
proof -
  from assms have ns: "\<not> game_started g" and ne: "players g \<noteq> []"
    by (auto simp: start_game_button_def split: if_splits)
  let ?g1 = "g\<lparr>game_started := True, deck := generate_deck rd, players := shuffle rp (players g)\<rparr>"
  from assms ns ne obtain ps dk where
    d: "deal (nat (num_cards g)) (shuffle rp (players g)) (generate_deck rd) = Returned (ps, dk)"
    by (auto simp: start_game_button_def Let_def split: if_splits result.splits)
  let ?g2 = "?g1\<lparr>players := ps, deck := dk, total_rounds := rounds g,
                    rounds_completed := 1, first_turn := True\<rparr>"
  have l: "length ps = length (players g)"
    using deal_length [OF d] by (simp add: length_shuffle)
  then have pne: "ps \<noteq> []" using ne by auto
  have p: "proceed_to_next_player ?g2 =
      Next_Turn (?g2\<lparr>current_player_index := (current_player_index g + 1) mod int (length ps),
                     first_turn := False\<rparr>)"
    using pne by (simp add: proceed_to_next_player_def Let_def)
  have "start_game_button uid rd rp g =
      Next_Turn (set_solo (?g2\<lparr>current_player_index := (current_player_index g + 1) mod int (length ps),
                     first_turn := False\<rparr>))"
    using assms ns ne d p by (auto simp: start_game_button_def Let_def split: if_splits)
  with assms have g0: "g0 = set_solo (?g2\<lparr>current_player_index := (current_player_index g + 1) mod int (length ps),
                     first_turn := False\<rparr>)"
    by simp
  show ?thesis
    unfolding g0 using l assms(2) by (auto simp: set_solo_def)
qed

lemma lobby_state:
  assumes "\<not> game_started g \<and> current_player_index g = - 1 \<and> \<not> solo_game g
     \<and> game_over g = None \<and> rounds g = r \<and> num_cards g = n"
  shows "\<not> game_started (lobby acts g) \<and> current_player_index (lobby acts g) = - 1
     \<and> \<not> solo_game (lobby acts g) \<and> game_over (lobby acts g) = None
     \<and> rounds (lobby acts g) = r \<and> num_cards (lobby acts g) = n"
  using assms
proof (induction acts g rule: lobby.induct)
  case (1 g)
  then show ?case by simp
next
  case (2 uid as g)
  show ?case
    by (simp, rule "2.IH") (use "2.prems" in \<open>simp add: play_game_button_def\<close>)
next
  case (3 uid as g)
  show ?case
    by (simp, rule "3.IH")
      (use "3.prems" in \<open>simp add: leave_game_button_def reset_lobby_def Let_def split: option.splits\<close>)
qed

lemma lobby_CorelliaGameView:
  "\<not> game_started (lobby acts (CorelliaGameView r n))
     \<and> current_player_index (lobby acts (CorelliaGameView r n)) = - 1
     \<and> \<not> solo_game (lobby acts (CorelliaGameView r n))
     \<and> game_over (lobby acts (CorelliaGameView r n)) = None
     \<and> rounds (lobby acts (CorelliaGameView r n)) = r
     \<and> num_cards (lobby acts (CorelliaGameView r n)) = n"
  by (rule lobby_state) (simp add: CorelliaGameView_def)

subsection \<open>Rounds and turns\<close>

lemma same_control_turn_inv: "same_control g g' \<Longrightarrow> turn_inv k g \<Longrightarrow> turn_inv k g'"
  by (simp add: same_control_def turn_inv_def)

lemma proceed_turn_inv:
  assumes "turn_inv k g" and "k \<le> 8"
  shows "(k = 8 \<longrightarrow> (\<exists>r. proceed_to_next_player g = Showdown r))
     \<and> (k < 8 \<longrightarrow> (\<exists>g'. proceed_to_next_player g = Next_Turn g' \<and> turn_inv (Suc k) g'))"
proof -
  from assms(2) have "k = 0 \<or> k = 1 \<or> k = 2 \<or> k = 3 \<or> k = 4 \<or> k = 5 \<or> k = 6 \<or> k = 7 \<or> k = 8"
    by arith
  then show ?thesis
    using assms(1)
    by (elim disjE) (auto simp: turn_inv_def proceed_to_next_player_def Let_def)
qed

lemma turn_step:
  assumes "turn_inv k g" and "k \<le> 8" and "a \<noteq> Junk"
  shows "(turn_action a g = Next_Turn g' \<longrightarrow> k < 8 \<and> turn_inv (Suc k) g')
     \<and> (turn_action a g = Showdown r \<longrightarrow> k = 8)"
proof -
  from turn_action_no_junk [OF assms(3), of g] obtain h where
    c: "same_control g h" and
    o: "turn_action a g = Rejected h \<or> (\<exists>e. turn_action a g = Failed e h)
          \<or> turn_action a g = proceed_to_next_player h"
    by blast
  have i: "turn_inv k h" using c assms(1) by (rule same_control_turn_inv)
  have "k = 8 \<or> k < 8" using assms(2) by arith
  then show ?thesis
  proof
    assume k: "k = 8"
    with proceed_turn_inv [OF i assms(2)] obtain r' where
      "proceed_to_next_player h = Showdown r'" by blast
    with o k show ?thesis by auto
  next
    assume k: "k < 8"
    with proceed_turn_inv [OF i assms(2)] obtain h' where
      "proceed_to_next_player h = Next_Turn h'" and "turn_inv (Suc k) h'" by blast
    with o k show ?thesis by auto
  qed
qed

lemma turns_run:
  assumes "turn_inv k g" and "k \<le> 8" and "Junk \<notin> set as" and "turns_completed as g"
  shows "k + length as \<le> 9
     \<and> (k + length as \<le> 8 \<longrightarrow> (\<exists>g'. play as g = Some g' \<and> turn_inv (k + length as) g'))
     \<and> (k + length as = 9 \<longrightarrow> play as g = None)"
  using assms
proof (induction as arbitrary: k g)
  case Nil
  then show ?case by simp
next
  case (Cons a as)
  from Cons.prems(3) have a: "a \<noteq> Junk" and as: "Junk \<notin> set as" by auto
  show ?case
  proof (cases "turn_action a g")
    case (Next_Turn g')
    with turn_step [OF Cons.prems(1,2) a, of g'] have k: "k < 8" and i: "turn_inv (Suc k) g'"
      by auto
    from Cons.prems(4) Next_Turn have t: "turns_completed as g'" by simp
    from k have "Suc k \<le> 8" by simp
    from Cons.IH [OF i this as t] Next_Turn show ?thesis by simp
  next
    case (Showdown r)
    with turn_step [OF Cons.prems(1,2) a, of _ r] have "k = 8" by auto
    moreover from Cons.prems(4) Showdown have "as = []" by simp
    ultimately show ?thesis using Showdown by simp
  next
    case (Rejected g')
    with Cons.prems(4) show ?thesis by simp
  next
    case (Failed e g')
    with Cons.prems(4) show ?thesis by simp
  qed
qed

lemma proceed_rounds_completed:
  assumes "proceed_to_next_player h = Next_Turn h'"
  shows "rounds_completed h' =
           rounds_completed h + (if current_player_index h' = 0 \<and> \<not> first_turn h then 1 else 0)"
  using assms by (auto simp: proceed_to_next_player_def Let_def split: if_splits)

text \<open>
  Claim C7. A game of three players and three rounds is started from a lobby. However the
  players act, as long as nobody junks and every action completes its turn: there are at
  most 9 completed turns; after \<open>n \<le> 8\<close> of them the game goes on, the current player is
  \<open>n mod 3\<close> and the round counter is \<open>1 + n div 3\<close> (so it is 1 at the first turn, where
  the index is 0, and grows by one at each later return to index 0); the ninth completed
  turn leads to the showdown. In general \<^verbatim>\<open>proceed_to_next_player\<close> adds one to the round
  counter exactly when the new index is 0 and it is not the first turn.
\<close>

theorem three_players_three_rounds:
  assumes "g = lobby acts (CorelliaGameView 3 n)"
    and "length (players g) = 3"
    and "start_game_button uid rd rp g = Next_Turn g0"
    and "Junk \<notin> set as"
    and "turns_completed as g0"
  shows "length as \<le> 9
     \<and> (length as \<le> 8 \<longrightarrow>
          (\<exists>g'. play as g0 = Some g' \<and> current_player_index g' = int (length as mod 3)
             \<and> rounds_completed g' = 1 + int (length as div 3) \<and> total_rounds g' = 3))
     \<and> (length as = 9 \<longrightarrow> play as g0 = None)
     \<and> (\<forall>h h'. proceed_to_next_player h = Next_Turn h' \<longrightarrow>
          rounds_completed h' =
            rounds_completed h + (if current_player_index h' = 0 \<and> \<not> first_turn h then 1 else 0))"
proof -
  have l: "current_player_index g = - 1" "rounds g = 3"
    unfolding assms(1) using lobby_CorelliaGameView [of acts 3 n] by simp_all
  from start_game_button_Next_Turn [OF assms(3) l(1)] assms(2) l(2)
  have "turn_inv 0 g0" by (simp add: turn_inv_def)
  from turns_run [OF this _ assms(4,5)] proceed_rounds_completed
  show ?thesis by (auto simp: turn_inv_def)
qed

theorem three_players_three_rounds_witness:
  "\<exists>g0. start_game_button 1 (\<lambda>i. i) (\<lambda>i. i)
           (lobby [Join 1, Join 2, Join 3] (CorelliaGameView 3 2)) = Next_Turn g0
     \<and> length (players (lobby [Join 1, Join 2, Join 3] (CorelliaGameView 3 2))) = 3
     \<and> Junk \<notin> set [Draw, Stand, Discard 0, Replace 1, Draw, Timeout, Stand, Stand, Stand]
     \<and> turns_completed [Draw, Stand, Discard 0, Replace 1, Draw, Timeout, Stand, Stand, Stand] g0
     \<and> play [Draw, Stand, Discard 0, Replace 1, Draw, Timeout, Stand, Stand, Stand] g0 = None"
proof -
  let ?g = "lobby [Join 1, Join 2, Join 3] (CorelliaGameView 3 2)"
  let ?as = "[Draw, Stand, Discard 0, Replace 1, Draw, Timeout, Stand, Stand, Stand]"
  define g0 where
    "g0 = (case start_game_button 1 (\<lambda>i. i) (\<lambda>i. i) ?g of Next_Turn g1 \<Rightarrow> g1 | _ \<Rightarrow> ?g)"
  have s: "start_game_button 1 (\<lambda>i. i) (\<lambda>i. i) ?g = Next_Turn g0"
    unfolding g0_def by code_simp
  have t: "turns_completed ?as g0"
    unfolding g0_def by code_simp
  have l: "length (players ?g) = 3" by code_simp
  have j: "Junk \<notin> set ?as" by simp
  from three_players_three_rounds [OF refl l s j t] s l j t show ?thesis by simp
qed

subsection \<open>Junking in a game of two players\<close>

lemma same_control_two_players: "same_control g g' \<Longrightarrow> two_players g \<Longrightarrow> two_players g'"
  by (simp add: same_control_def two_players_def)

lemma proceed_two_players:
  assumes "two_players h" and "proceed_to_next_player h = Next_Turn h'"
  shows "two_players h'"
  using assms
  by (auto simp: two_players_def proceed_to_next_player_def Let_def split: if_splits)

lemma proceed_not_Rejected: "proceed_to_next_player h \<noteq> Rejected h'"
  by (simp add: proceed_to_next_player_def Let_def)

lemma list_index_two_players:
  assumes "two_players g"
  shows "list_index (length (players g)) (current_player_index g) =
           Inr (nat (current_player_index g))"
  using assms by (auto simp: two_players_def list_index_def)

lemma junk_two_players:
  assumes "two_players g"
  shows "turn_action Junk g =
           Showdown (end_game (g\<lparr>players := [players g ! (1 - nat (current_player_index g))]\<rparr>))"
proof -
  from assms obtain p q where ps: "players g = [p, q]"
    by (auto simp: two_players_def length_Suc_conv numeral_2_eq_2)
  from assms have "current_player_index g = 0 \<or> current_player_index g = 1"
    by (simp add: two_players_def)
  then show ?thesis
    using ps list_index_two_players [OF assms]
    by (auto simp: turn_action_def junk_button_def Let_def)
qed

lemma turn_two_players:
  assumes "two_players g" and "continue_with (turn_action a g) = Some g'"
  shows "two_players g'"
proof (cases "a = Junk")
  case True
  with junk_two_players [OF assms(1)] assms(2) show ?thesis by simp
next
  case False
  from turn_action_no_junk [OF False, of g] obtain h where
    c: "same_control g h" and
    o: "turn_action a g = Rejected h \<or> (\<exists>e. turn_action a g = Failed e h)
          \<or> turn_action a g = proceed_to_next_player h"
    by blast
  have t: "two_players h" using c assms(1) by (rule same_control_two_players)
  from o show ?thesis
  proof (elim disjE exE)
    assume "turn_action a g = Rejected h"
    with assms(2) t show ?thesis by simp
  next
    fix e assume "turn_action a g = Failed e h"
    with assms(2) t show ?thesis by simp
  next
    assume p: "turn_action a g = proceed_to_next_player h"
    show ?thesis
    proof (cases "proceed_to_next_player h")
      case (Rejected h')
      then show ?thesis using proceed_not_Rejected by blast
    next
      case (Next_Turn h')
      with p assms(2) have "g' = h'" by simp
      with proceed_two_players [OF t Next_Turn] show ?thesis by simp
    next
      case (Showdown r)
      with p assms(2) show ?thesis by simp
    next
      case (Failed e h')
      with proceed_Failed [OF Failed] p assms(2) t show ?thesis by simp
    qed
  qed
qed

lemma play_two_players:
  assumes "two_players g" and "play as g = Some g'"
  shows "two_players g'"
  using assms
proof (induction as arbitrary: g)
  case Nil
  then show ?case by simp
next
  case (Cons a as)
  from Cons.prems(2) obtain h where h: "continue_with (turn_action a g) = Some h"
    and p: "play as h = Some g'"
    by (auto split: option.splits)
  from turn_two_players [OF Cons.prems(1) h] p show ?case by (rule Cons.IH)
qed

lemma sort_hands_single: "sort_hands [x] = [x]"
  by (simp add: sort_hands_def)

lemma end_game_single:
  assumes "\<not> solo_game g" and "players g = [p]"
  shows "end_game g =
           (case evaluate_hand p of
              Inl e \<Rightarrow> Raised e g
            | Inr (hand_value, hand_type, tot) \<Rightarrow>
               Returned (g\<lparr>game_over := Some (Final_Hands [(hand_value, p, hand_type, tot)]
                                                         [(hand_value, p, hand_type, tot)])\<rparr>))"
  using assms
  by (auto simp: end_game_def sort_hands_single Let_def split: sum.splits prod.splits)

text \<open>
  Claim C8. A game is started from a lobby of exactly two players and played for a
  while. Whatever the round counter is, when the player whose turn it is junks, the
  callback calls \<^verbatim>\<open>end_game\<close> at once on the game with the other player alone; the solo
  flag, set at the start from the number of players, is false, so \<^verbatim>\<open>end_game\<close> draws
  nothing from the deck and adds no player: it evaluates the hand of the other player,
  who is the only ranked hand and the only winner.
\<close>

theorem junk_in_two_player_game:
  assumes "g = lobby acts (CorelliaGameView r n)"
    and "length (players g) = 2"
    and "start_game_button uid rd rp g = Next_Turn g0"
    and "play as g0 = Some g1"
    and "other = players g1 ! (1 - nat (current_player_index g1))"
  shows "\<not> solo_game g0 \<and> \<not> solo_game g1 \<and> length (players g1) = 2
     \<and> turn_action Junk g1 = Showdown (end_game (g1\<lparr>players := [other]\<rparr>))
     \<and> end_game (g1\<lparr>players := [other]\<rparr>) =
         (case evaluate_hand other of
            Inl e \<Rightarrow> Raised e (g1\<lparr>players := [other]\<rparr>)
          | Inr (hand_value, hand_type, tot) \<Rightarrow>
             Returned (g1\<lparr>players := [other],
                          game_over := Some (Final_Hands [(hand_value, other, hand_type, tot)]
                                                         [(hand_value, other, hand_type, tot)])\<rparr>))"
proof -
  have l: "current_player_index g = - 1" "\<not> solo_game g"
    unfolding assms(1) using lobby_CorelliaGameView [of acts r n] by simp_all
  from start_game_button_Next_Turn [OF assms(3) l(1)] assms(2) l(2)
  have t0: "two_players g0" by (simp add: two_players_def)
  from t0 assms(4) have t1: "two_players g1" by (rule play_two_players)
  have s: "\<not> solo_game (g1\<lparr>players := [other]\<rparr>)" using t1 by (simp add: two_players_def)
  have "end_game (g1\<lparr>players := [other]\<rparr>) =
         (case evaluate_hand other of
            Inl e \<Rightarrow> Raised e (g1\<lparr>players := [other]\<rparr>)
          | Inr (hand_value, hand_type, tot) \<Rightarrow>
             Returned (g1\<lparr>players := [other]\<rparr>
                         \<lparr>game_over := Some (Final_Hands [(hand_value, other, hand_type, tot)]
                                                         [(hand_value, other, hand_type, tot)])\<rparr>))"
    by (rule end_game_single [OF s]) simp
  with junk_two_players [OF t1] t0 t1 show ?thesis
    unfolding assms(5) by (simp add: two_players_def)
qed

theorem junk_in_two_player_game_witness:
  "\<exists>g0 g1. start_game_button 1 (\<lambda>i. i) (\<lambda>i. i)
              (lobby [Join 1, Join 2] (CorelliaGameView 3 2)) = Next_Turn g0
     \<and> length (players (lobby [Join 1, Join 2] (CorelliaGameView 3 2))) = 2
     \<and> play [Draw, Stand] g0 = Some g1
     \<and> rounds_completed g1 = 2 \<and> total_rounds g1 = 3
     \<and> players g1 ! (1 - nat (current_player_index g1)) = \<lparr>user = Human 2, cards = [- 10, - 10]\<rparr>
     \<and> turn_action Junk g1 =
         Showdown (Returned (g1\<lparr>players := [\<lparr>user = Human 2, cards = [- 10, - 10]\<rparr>],
            game_over := Some (Final_Hands
              [([Fin 10, Fin 20, Fin 1, Fin (- 2), Fin 0, NegInf],
                \<lparr>user = Human 2, cards = [- 10, - 10]\<rparr>, ''Nulrhek'', - 20)]
              [([Fin 10, Fin 20, Fin 1, Fin (- 2), Fin 0, NegInf],
                \<lparr>user = Human 2, cards = [- 10, - 10]\<rparr>, ''Nulrhek'', - 20)])\<rparr>))"
proof -
  let ?g = "lobby [Join 1, Join 2] (CorelliaGameView 3 2)"
  define g0 where
    "g0 = (case start_game_button 1 (\<lambda>i. i) (\<lambda>i. i) ?g of Next_Turn h \<Rightarrow> h | _ \<Rightarrow> ?g)"
  define g1 where "g1 = (case play [Draw, Stand] g0 of Some h \<Rightarrow> h | None \<Rightarrow> g0)"
  have s: "start_game_button 1 (\<lambda>i. i) (\<lambda>i. i) ?g = Next_Turn g0"
    unfolding g0_def by code_simp
  have l: "length (players ?g) = 2" by code_simp
  have p: "play [Draw, Stand] g0 = Some g1"
    unfolding g1_def g0_def by code_simp
  have o: "players g1 ! (1 - nat (current_player_index g1)) = \<lparr>user = Human 2, cards = [- 10, - 10]\<rparr>"
    unfolding g1_def g0_def by code_simp
  have e: "evaluate_hand \<lparr>user = Human 2, cards = [- 10, - 10]\<rparr> =
      Inr ([Fin 10, Fin 20, Fin 1, Fin (- 2), Fin 0, NegInf], ''Nulrhek'', - 20)"
    by code_simp
  have r: "rounds_completed g1 = 2 \<and> total_rounds g1 = 3"
    unfolding g1_def g0_def by code_simp
  from junk_in_two_player_game [OF refl l s p o [symmetric]] s l p o e r show ?thesis
    by (intro exI [of _ g0] exI [of _ g1]) simp
qed

end
